theory Spec2Isabelle
  imports Complex_Main "HOL-Library.Log_Nat"
begin

section \<open>JavaScript numbers\<close>

text \<open>
  A JavaScript Number is an IEEE 754 binary64 value: NaN, one of the two infinities, or a
  finite rational of the form \<open>m * 2 ^ e\<close>. The finite values are carried as rationals, and
  every arithmetic operation computes the exact rational result and rounds it to the nearest
  binary64 value, ties to the even significand. The two zeros are identified: \<open>===\<close>,
  \<open><=\<close> and \<open>>=\<close> do not tell them apart, and \<open>AQI\<close> divides only by
  \<open>Ch - Cl\<close>, which is \<open>+0\<close> whenever it is a zero.
\<close>

datatype double = NaN | PInf | NInf | Fin rat

definition pow2 :: "int \<Rightarrow> rat" where
  "pow2 e = (if 0 \<le> e then 2 ^ nat e else 1 / 2 ^ nat (- e))"

text \<open>For \<open>0 < x\<close>, \<open>ilog2 x\<close> is the exponent \<open>e\<close> with \<open>2 ^ e \<le> x < 2 ^ (e + 1)\<close>.\<close>

definition ilog2 :: "rat \<Rightarrow> int" where
  "ilog2 x = (let (a, b) = quotient_of x; e = bitlen a - bitlen b
              in if pow2 e \<le> x then e else e - 1)"

text \<open>Rounding to the nearest integer, a tie going to the even one.\<close>

definition rne :: "rat \<Rightarrow> int" where
  "rne x = (let f = \<lfloor>x\<rfloor>; r = x - of_int f
            in if r < 1 / 2 then f else if 1 / 2 < r then f + 1
               else if even f then f else f + 1)"

text \<open>
  The spacing of the binary64 values around \<open>x\<close>: 53 significant bits, and the
  subnormal spacing \<open>2 ^ - 1074\<close> below \<open>2 ^ - 1022\<close>.
\<close>

definition quantum :: "rat \<Rightarrow> rat" where
  "quantum x = pow2 (max (ilog2 \<bar>x\<bar>) (- 1022) - 52)"

definition rd :: "rat \<Rightarrow> rat" where
  "rd x = (if x = 0 then 0 else of_int (rne (x / quantum x)) * quantum x)"

definition round_double :: "rat \<Rightarrow> double" where
  "round_double x = (let y = rd x in
     if 2 ^ 1024 \<le> y then PInf else if y \<le> - (2 ^ 1024) then NInf else Fin y)"

text \<open>A finite rational is a Number when rounding leaves it as it is.\<close>

definition is_double :: "rat \<Rightarrow> bool" where
  "is_double x \<longleftrightarrow> round_double x = Fin x"

text \<open>
  A decimal literal of the source denotes the binary64 value nearest to it. The integer
  literals of the source are binary64 values themselves and are written with \<open>Fin\<close>.
\<close>

definition lit :: "rat \<Rightarrow> double" where
  "lit x = round_double x"

fun dneg :: "double \<Rightarrow> double" where
  "dneg NaN = NaN"
| "dneg PInf = NInf"
| "dneg NInf = PInf"
| "dneg (Fin x) = Fin (- x)"

fun dadd :: "double \<Rightarrow> double \<Rightarrow> double" where
  "dadd (Fin x) (Fin y) = round_double (x + y)"
| "dadd NaN _ = NaN"
| "dadd _ NaN = NaN"
| "dadd PInf NInf = NaN"
| "dadd NInf PInf = NaN"
| "dadd PInf _ = PInf"
| "dadd _ PInf = PInf"
| "dadd NInf _ = NInf"
| "dadd _ NInf = NInf"

definition dsub :: "double \<Rightarrow> double \<Rightarrow> double" where
  "dsub a b = dadd a (dneg b)"

text \<open>The sign of a Number that is not NaN, a zero counting as positive.\<close>

fun negative :: "double \<Rightarrow> bool" where
  "negative NInf = True"
| "negative (Fin x) = (x < 0)"
| "negative _ = False"

fun dmul :: "double \<Rightarrow> double \<Rightarrow> double" where
  "dmul (Fin x) (Fin y) = round_double (x * y)"
| "dmul NaN _ = NaN"
| "dmul _ NaN = NaN"
| "dmul a b =
     (if a = Fin 0 \<or> b = Fin 0 then NaN
      else if negative a = negative b then PInf else NInf)"

fun ddiv :: "double \<Rightarrow> double \<Rightarrow> double" where
  "ddiv (Fin x) (Fin y) =
     (if y \<noteq> 0 then round_double (x / y)
      else if x = 0 then NaN else if 0 < x then PInf else NInf)"
| "ddiv NaN _ = NaN"
| "ddiv _ NaN = NaN"
| "ddiv (Fin x) _ = Fin 0"
| "ddiv a (Fin y) = (if negative a = (y < 0) then PInf else NInf)"
| "ddiv _ _ = NaN"

text \<open>\<open>a <= b\<close> on Numbers; a comparison with NaN is false.\<close>

fun dle :: "double \<Rightarrow> double \<Rightarrow> bool" where
  "dle NaN _ = False"
| "dle _ NaN = False"
| "dle NInf _ = True"
| "dle _ PInf = True"
| "dle (Fin x) (Fin y) = (x \<le> y)"
| "dle _ _ = False"

definition dge :: "double \<Rightarrow> double \<Rightarrow> bool" where
  "dge a b = dle b a"

text \<open>
  \<open>Math.round\<close>: the integer nearest to the argument, a tie going towards
  \<open>+\<infinity>\<close>; computed exactly, not as a binary64 sum.
\<close>

fun Math_round :: "double \<Rightarrow> double" where
  "Math_round (Fin x) = Fin (of_int \<lfloor>x + 1 / 2\<rfloor>)"
| "Math_round a = a"

section \<open>The values \<open>AQI\<close> receives\<close>

text \<open>
  The property \<open>pm2_5\<close> is a Number, or one of the values that stand for a missing
  reading: \<open>undefined\<close>, \<open>null\<close> and the empty string.
\<close>

datatype js_value = Undefined | Null | EmptyString | Number double

fun ToNumber :: "js_value \<Rightarrow> double" where
  "ToNumber Undefined = NaN"
| "ToNumber Null = Fin 0"
| "ToNumber EmptyString = Fin 0"
| "ToNumber (Number d) = d"

definition isNaN :: "js_value \<Rightarrow> bool" where
  "isNaN v \<longleftrightarrow> ToNumber v = NaN"

section \<open>The component \<open>AQI\<close>\<close>

record breakpoint =
  AQIh :: double
  Cl :: double
  Ch :: double
  category :: string

definition breakpoints :: "breakpoint list" where
  "breakpoints =
    [\<lparr>AQIh = Fin 50, Cl = lit 0, Ch = lit 12, category = ''Good''\<rparr>,
     \<lparr>AQIh = Fin 100, Cl = lit (121 / 10), Ch = lit (354 / 10), category = ''Moderate''\<rparr>,
     \<lparr>AQIh = Fin 150, Cl = lit (355 / 10), Ch = lit (554 / 10),
        category = ''Unhealthy for Sensitive''\<rparr>,
     \<lparr>AQIh = Fin 200, Cl = lit (555 / 10), Ch = lit (1504 / 10), category = ''Unhealthy''\<rparr>,
     \<lparr>AQIh = Fin 300, Cl = lit (1505 / 10), Ch = lit (2504 / 10),
        category = ''Very Unhealthy''\<rparr>,
     \<lparr>AQIh = Fin 400, Cl = lit (2505 / 10), Ch = lit (3504 / 10), category = ''Hazardous''\<rparr>,
     \<lparr>AQIh = Fin 500, Cl = lit (3505 / 10), Ch = lit (5004 / 10),
        category = ''Extremely Hazardous''\<rparr>]"

text \<open>
  \<open>xs.indexOf(x)\<close>: the first position holding \<open>x\<close>, or \<open>-1\<close>. JavaScript compares
  the rows by identity; the rows of \<open>breakpoints\<close> differ pairwise, so equality finds the
  same position.
\<close>

fun indexOf :: "'a list \<Rightarrow> 'a \<Rightarrow> int" where
  "indexOf [] x = - 1"
| "indexOf (y # ys) x =
     (if y = x then 0 else (let i = indexOf ys x in if i < 0 then - 1 else i + 1))"

text \<open>\<open>xs[i]\<close>: out of range the read gives \<open>undefined\<close>, here \<open>None\<close>.\<close>

definition elem_at :: "'a list \<Rightarrow> int \<Rightarrow> 'a option" where
  "elem_at xs i = (if 0 \<le> i \<and> i < int (length xs) then Some (xs ! nat i) else None)"

text \<open>
  \<open>row?.AQIh || 0\<close>: \<open>undefined\<close> when the row is, and \<open>||\<close> replaces
  \<open>undefined\<close>, zero and NaN by \<open>0\<close>.
\<close>

definition AQIh_or_0 :: "breakpoint option \<Rightarrow> double" where
  "AQIh_or_0 row =
     (case row of None \<Rightarrow> Fin 0
      | Some r \<Rightarrow> if AQIh r = Fin 0 \<or> AQIh r = NaN then Fin 0 else AQIh r)"

text \<open>
  The body of the loop for a row whose range holds \<open>pm2_5\<close>: the value given to
  \<open>aqi\<close>.
\<close>

definition interpolate :: "breakpoint \<Rightarrow> js_value \<Rightarrow> double" where
  "interpolate bp pm2_5 =
     (let AQIl = AQIh_or_0 (elem_at breakpoints (indexOf breakpoints bp - 1))
      in Math_round
           (dadd (dmul (ddiv (dsub (AQIh bp) AQIl) (dsub (Ch bp) (Cl bp)))
                       (dsub (ToNumber pm2_5) (Cl bp)))
                 AQIl))"

text \<open>
  The \<open>for\<close> loop over the rows still to visit; the result is the pair \<open>(aqi, cat)\<close>
  when the loop ends, \<open>(0, "")\<close> when no row matched.
\<close>

fun scan :: "breakpoint list \<Rightarrow> js_value \<Rightarrow> double \<times> string" where
  "scan [] pm2_5 = (Fin 0, '''')"
| "scan (bp # rest) pm2_5 =
     (if dge (ToNumber pm2_5) (Cl bp) \<and> dle (ToNumber pm2_5) (Ch bp)
      then (interpolate bp pm2_5, category bp)
      else scan rest pm2_5)"

definition colour :: "double \<Rightarrow> string" where
  "colour aqi =
     (if dle aqi (Fin 50) then ''#227d34'' else if dle aqi (Fin 100) then ''#edc13b''
      else if dle aqi (Fin 150) then ''#ea7417'' else if dle aqi (Fin 200) then ''#c81b19''
      else if dle aqi (Fin 300) then ''#7e179a'' else ''#5a2210'')"

text \<open>
  What the component renders: the dash, or the span with its colour, the index and the
  category.
\<close>

datatype element = Dash | Span string double string

definition AQI :: "js_value \<Rightarrow> element" where
  "AQI pm2_5 =
     (if pm2_5 = Undefined \<or> pm2_5 = Null \<or> isNaN pm2_5 then Dash
      else (let (aqi, cat) = scan breakpoints pm2_5
            in if aqi = Fin 0 then Dash else Span (colour aqi) aqi cat))"

section \<open>Values outside the contract\<close>






section \<open>Vocabulary of the properties\<close>

text \<open>\<open>a < b\<close> on Numbers; a comparison with NaN is false.\<close>

fun dlt :: "double \<Rightarrow> double \<Rightarrow> bool" where
  "dlt NaN _ = False"
| "dlt _ NaN = False"
| "dlt (Fin x) (Fin y) = (x < y)"
| "dlt NInf NInf = False"
| "dlt NInf _ = True"
| "dlt PInf _ = False"
| "dlt _ PInf = True"
| "dlt _ NInf = False"

text \<open>
  The index a row gives to a finite concentration \<open>q\<close>, on the rationals: \<open>k\<close> is
  the slope of the row, \<open>cl\<close> its lower concentration and \<open>l\<close> the index it starts from.
  Each operation rounds as the binary64 operation does.
\<close>

definition index_at :: "rat \<Rightarrow> rat \<Rightarrow> rat \<Rightarrow> rat \<Rightarrow> int" where
  "index_at k cl l q = \<lfloor>rd (rd (k * rd (q - cl)) + l) + 1 / 2\<rfloor>"

text \<open>What a rendered element shows as the index; the dash shows none.\<close>

fun shown_index :: "element \<Rightarrow> double option" where
  "shown_index Dash = None"
| "shown_index (Span c a t) = Some a"

text \<open>
  The table read on the rationals: the bounds of row \<open>i\<close>, the index it ends at, the
  index it starts from (the previous row's, or \<open>0\<close> for the first row), and its slope
  as \<open>AQI\<close> computes it, each operation rounded.
\<close>

fun val :: "double \<Rightarrow> rat" where
  "val (Fin x) = x"
| "val _ = 0"

definition conc_low :: "nat \<Rightarrow> rat" where
  "conc_low i = val (Cl (breakpoints ! i))"

definition conc_high :: "nat \<Rightarrow> rat" where
  "conc_high i = val (Ch (breakpoints ! i))"

definition index_high :: "nat \<Rightarrow> rat" where
  "index_high i = val (AQIh (breakpoints ! i))"

definition index_low :: "nat \<Rightarrow> rat" where
  "index_low i = (if i = 0 then 0 else index_high (i - 1))"

definition slope :: "nat \<Rightarrow> rat" where
  "slope i = rd (rd (index_high i - index_low i) / rd (conc_high i - conc_low i))"

section \<open>Rounding to binary64 is monotone\<close>

lemma pow2_powi: "pow2 e = 2 powi e"
  by (simp add: pow2_def power_int_def power_one_over)

lemma pow2_pos: "0 < pow2 e"
  by (simp add: pow2_powi)

lemma pow2_add: "pow2 (a + b) = pow2 a * pow2 b"
  by (simp add: pow2_powi power_int_add)

lemma pow2_split: "pow2 a = pow2 b * pow2 (a - b)"
  using pow2_add [of b "a - b"] by simp

lemma pow2_mono: "a \<le> b \<Longrightarrow> pow2 a \<le> pow2 b"
  by (simp add: pow2_powi power_int_increasing)

lemma pow2_less_cancel: "pow2 a < pow2 b \<Longrightarrow> a < b"
  using pow2_mono [of b a] by (cases "a < b") simp_all

lemma ilog2_bounds:
  assumes "0 < x"
  shows "pow2 (ilog2 x) \<le> x \<and> x < pow2 (ilog2 x + 1)"
proof -
  obtain a b where q: "quotient_of x = (a, b)" by (cases "quotient_of x")
  then have b: "0 < b" and x: "x = of_int a / of_int b"
    using quotient_of_denom_pos quotient_of_div by blast+
  from assms x b have a: "0 < a"
    by (simp add: zero_less_divide_iff)
  define e where "e = bitlen a - bitlen b"
  have ba: "2 ^ nat (bitlen a - 1) \<le> a \<and> a < 2 ^ nat (bitlen a)"
    using bitlen_bounds [OF a] .
  have bb: "2 ^ nat (bitlen b - 1) \<le> b \<and> b < 2 ^ nat (bitlen b)"
    using bitlen_bounds [OF b] .
  have la: "1 \<le> bitlen a" and lb: "1 \<le> bitlen b"
    using a b by (simp_all add: bitlen_alt_def)
  have a1: "pow2 (bitlen a - 1) \<le> of_int a"
  proof -
    have "rat_of_int (2 ^ nat (bitlen a - 1)) \<le> of_int a"
      using ba by (simp only: of_int_le_iff)
    then show ?thesis using la by (simp add: pow2_def)
  qed
  have a2: "of_int a < pow2 (bitlen a)"
  proof -
    have "rat_of_int a < of_int (2 ^ nat (bitlen a))"
      using ba by (simp only: of_int_less_iff)
    then show ?thesis using la by (simp add: pow2_def)
  qed
  have b1: "pow2 (bitlen b - 1) \<le> of_int b"
  proof -
    have "rat_of_int (2 ^ nat (bitlen b - 1)) \<le> of_int b"
      using bb by (simp only: of_int_le_iff)
    then show ?thesis using lb by (simp add: pow2_def)
  qed
  have b2: "of_int b < pow2 (bitlen b)"
  proof -
    have "rat_of_int b < of_int (2 ^ nat (bitlen b))"
      using bb by (simp only: of_int_less_iff)
    then show ?thesis using lb by (simp add: pow2_def)
  qed
  have up: "x < pow2 (e + 1)"
  proof -
    have "of_int a * pow2 (bitlen b - 1) < pow2 (bitlen a) * of_int b"
      using a2 b1 a pow2_pos [of "bitlen b - 1"]
      by (intro mult_less_le_imp_less) simp_all
    moreover have "pow2 (bitlen a) = pow2 (e + 1) * pow2 (bitlen b - 1)"
      by (simp add: e_def flip: pow2_add)
    ultimately have "of_int a * pow2 (bitlen b - 1) < (pow2 (e + 1) * of_int b) * pow2 (bitlen b - 1)"
      by (simp add: mult_ac)
    then have "of_int a < pow2 (e + 1) * of_int b"
      using pow2_pos [of "bitlen b - 1"] by (simp only: mult_less_cancel_right_pos)
    then show ?thesis
      using b by (simp add: x pos_divide_less_eq)
  qed
  have lo: "pow2 (e - 1) \<le> x"
  proof -
    have "pow2 (bitlen a - 1) * of_int b \<le> of_int a * pow2 (bitlen b)"
      using a1 b2 b pow2_pos [of "bitlen a - 1"]
      by (intro mult_mono) simp_all
    moreover have "pow2 (bitlen a - 1) = pow2 (e - 1) * pow2 (bitlen b)"
      by (simp add: e_def flip: pow2_add)
    ultimately have "(pow2 (e - 1) * of_int b) * pow2 (bitlen b) \<le> of_int a * pow2 (bitlen b)"
      by (simp add: mult_ac)
    then have "pow2 (e - 1) * of_int b \<le> of_int a"
      using pow2_pos [of "bitlen b"] by (simp only: mult_le_cancel_right_pos)
    then show ?thesis
      using b by (simp add: x pos_le_divide_eq)
  qed
  show ?thesis
    using up lo q by (auto simp: ilog2_def e_def Let_def not_le)
qed

lemma ilog2_unique:
  assumes "pow2 e \<le> x" "x < pow2 (e + 1)"
  shows "ilog2 x = e"
proof -
  have x: "0 < x" using assms(1) pow2_pos [of e] by simp
  note b = ilog2_bounds [OF x]
  have "pow2 e < pow2 (ilog2 x + 1)" using assms b by simp
  then have "e < ilog2 x + 1" by (rule pow2_less_cancel)
  moreover have "pow2 (ilog2 x) < pow2 (e + 1)" using assms b by simp
  then have "ilog2 x < e + 1" by (rule pow2_less_cancel)
  ultimately show ?thesis by simp
qed

lemma ilog2_mono:
  assumes "0 < x" "x \<le> y"
  shows "ilog2 x \<le> ilog2 y"
proof -
  have "pow2 (ilog2 x) < pow2 (ilog2 y + 1)"
    using ilog2_bounds [of x] ilog2_bounds [of y] assms by simp
  then have "ilog2 x < ilog2 y + 1" by (rule pow2_less_cancel)
  then show ?thesis by simp
qed

lemma rne_of_int: "rne (of_int n) = n"
  by (simp add: rne_def)

lemma rne_bounds: "of_int (rne x) \<le> x + 1 / 2 \<and> x - 1 / 2 \<le> of_int (rne x)"
  by (auto simp: rne_def Let_def; linarith)

lemma rne_floor: "\<lfloor>x\<rfloor> \<le> rne x \<and> rne x \<le> \<lfloor>x\<rfloor> + 1"
  by (simp add: rne_def Let_def)

lemma rne_mono:
  assumes "x \<le> y"
  shows "rne x \<le> rne y"
proof (cases "\<lfloor>x\<rfloor> = \<lfloor>y\<rfloor>")
  case True
  with assms show ?thesis
    by (simp add: rne_def Let_def)
next
  case False
  with assms have "\<lfloor>x\<rfloor> < \<lfloor>y\<rfloor>"
    using floor_mono [of x y] by simp
  then show ?thesis
    using rne_floor [of x] rne_floor [of y] by simp
qed

lemma rne_minus: "rne (- x) = - rne x"
proof (cases "x = of_int \<lfloor>x\<rfloor>")
  case True
  then obtain n where "x = of_int n" ..
  then show ?thesis
    by (simp add: rne_of_int flip: of_int_minus)
next
  case False
  then have lt: "of_int \<lfloor>x\<rfloor> < x"
    using of_int_floor_le [of x] by linarith
  have fl: "\<lfloor>- x\<rfloor> = - \<lfloor>x\<rfloor> - 1"
    using lt floor_correct [of x] by (intro floor_unique) simp_all
  show ?thesis
    using lt by (auto simp: rne_def Let_def fl)
qed

lemma quantum_pos: "0 < quantum x"
  by (simp add: quantum_def pow2_pos)

lemma quantum_minus: "quantum (- x) = quantum x"
  by (simp add: quantum_def)

lemma rd_minus: "rd (- x) = - rd x"
  by (simp add: rd_def quantum_minus rne_minus)

lemma rd_nonneg:
  assumes "0 \<le> x"
  shows "0 \<le> rd x"
proof -
  have "0 \<le> x / quantum x"
    using assms quantum_pos [of x] by simp
  then have "rne 0 \<le> rne (x / quantum x)"
    by (rule rne_mono)
  then have "0 \<le> rne (x / quantum x)"
    using rne_of_int [of 0] by simp
  then show ?thesis
    using quantum_pos [of x] by (simp add: rd_def)
qed

lemma rd_upper:
  assumes "0 < x"
  shows "rd x \<le> pow2 (max (ilog2 x) (- 1022) + 1)"
proof -
  define E where "E = max (ilog2 x) (- 1022)"
  have u: "quantum x = pow2 (E - 52)"
    using assms by (simp add: quantum_def E_def)
  have "x < pow2 (ilog2 x + 1)"
    using ilog2_bounds [OF assms] by simp
  also have "\<dots> \<le> pow2 (E + 1)"
    by (rule pow2_mono) (simp add: E_def)
  finally have "x < pow2 (E + 1)" .
  moreover have eq: "pow2 (E + 1) = pow2 53 * pow2 (E - 52)"
    using pow2_split [of "E + 1" 53] by simp
  ultimately have "x / pow2 (E - 52) \<le> pow2 53"
    using pow2_pos [of "E - 52"] by (simp add: pos_divide_le_eq)
  moreover have "pow2 53 = of_int (2 ^ 53)"
    by (simp add: pow2_def)
  ultimately have "rne (x / pow2 (E - 52)) \<le> rne (of_int (2 ^ 53))"
    by (simp only: rne_mono)
  then have "rne (x / pow2 (E - 52)) \<le> 2 ^ 53"
    by (simp only: rne_of_int)
  then have "rat_of_int (rne (x / pow2 (E - 52))) \<le> of_int (2 ^ 53)"
    by (simp only: of_int_le_iff)
  then have "of_int (rne (x / pow2 (E - 52))) * pow2 (E - 52) \<le> pow2 53 * pow2 (E - 52)"
    using pow2_pos [of "E - 52"] \<open>pow2 53 = of_int (2 ^ 53)\<close>
    by (simp only: mult_le_cancel_right_pos)
  then have "rd x \<le> pow2 (E + 1)"
    using assms by (simp only: rd_def u eq) simp
  then show ?thesis
    by (simp only: E_def)
qed

lemma rd_lower:
  assumes "0 < x" "- 1022 \<le> ilog2 x"
  shows "pow2 (ilog2 x) \<le> rd x"
proof -
  define E where "E = ilog2 x"
  have u: "quantum x = pow2 (E - 52)"
    using assms by (simp add: quantum_def E_def max_def)
  have "pow2 E \<le> x"
    using ilog2_bounds [OF assms(1)] by (simp add: E_def)
  moreover have eq: "pow2 E = pow2 52 * pow2 (E - 52)"
    by (rule pow2_split)
  ultimately have "pow2 52 \<le> x / pow2 (E - 52)"
    using pow2_pos [of "E - 52"] by (simp add: pos_le_divide_eq)
  moreover have "pow2 52 = of_int (2 ^ 52)"
    by (simp add: pow2_def)
  ultimately have "rne (of_int (2 ^ 52)) \<le> rne (x / pow2 (E - 52))"
    by (simp only: rne_mono)
  then have "2 ^ 52 \<le> rne (x / pow2 (E - 52))"
    by (simp only: rne_of_int)
  then have "rat_of_int (2 ^ 52) \<le> of_int (rne (x / pow2 (E - 52)))"
    by (simp only: of_int_le_iff)
  then have "pow2 52 * pow2 (E - 52) \<le> of_int (rne (x / pow2 (E - 52))) * pow2 (E - 52)"
    using pow2_pos [of "E - 52"] \<open>pow2 52 = of_int (2 ^ 52)\<close>
    by (simp only: mult_le_cancel_right_pos)
  then have "pow2 E \<le> rd x"
    using assms by (simp only: rd_def u eq) simp
  then show ?thesis
    by (simp only: E_def)
qed

lemma rd_mono_pos:
  assumes "0 < x" "x \<le> y"
  shows "rd x \<le> rd y"
proof -
  define Ex where "Ex = max (ilog2 x) (- 1022)"
  define Ey where "Ey = max (ilog2 y) (- 1022)"
  have y: "0 < y" using assms by simp
  have le: "Ex \<le> Ey"
    using ilog2_mono [OF assms] by (simp add: Ex_def Ey_def max_def)
  show ?thesis
  proof (cases "Ex = Ey")
    case True
    then have u: "quantum y = quantum x"
      using assms y by (simp add: quantum_def Ex_def Ey_def)
    have "x / quantum x \<le> y / quantum x"
      using assms quantum_pos [of x] by (simp add: divide_right_mono)
    then have "rne (x / quantum x) \<le> rne (y / quantum x)"
      by (rule rne_mono)
    then have "rat_of_int (rne (x / quantum x)) \<le> of_int (rne (y / quantum x))"
      by (simp only: of_int_le_iff)
    then show ?thesis
      using assms y quantum_pos [of x] by (simp add: rd_def u)
  next
    case False
    with le have lt: "Ex < Ey" by simp
    then have Ey: "Ey = ilog2 y" and low: "- 1022 \<le> ilog2 y"
      by (simp_all add: Ex_def Ey_def max_def split: if_splits)
    have "rd x \<le> pow2 (Ex + 1)"
      using rd_upper [OF assms(1)] by (simp add: Ex_def)
    also have "\<dots> \<le> pow2 Ey"
      using lt by (intro pow2_mono) simp
    also have "\<dots> \<le> rd y"
      using rd_lower [OF y low] by (simp add: Ey)
    finally show ?thesis .
  qed
qed

lemma rd_mono:
  assumes "x \<le> y"
  shows "rd x \<le> rd y"
proof -
  consider "0 < x" | "x \<le> 0" "0 \<le> y" | "y < 0"
    using assms by linarith
  then show ?thesis
  proof cases
    case 1
    then show ?thesis using assms by (rule rd_mono_pos)
  next
    case 2
    have "0 \<le> rd (- x)" using 2 by (intro rd_nonneg) simp
    then have "rd x \<le> 0" by (simp add: rd_minus)
    also have "0 \<le> rd y" using 2 by (intro rd_nonneg)
    finally show ?thesis .
  next
    case 3
    have "rd (- y) \<le> rd (- x)"
      using 3 assms by (intro rd_mono_pos) simp_all
    then show ?thesis by (simp add: rd_minus)
  qed
qed

section \<open>Small values stay finite\<close>

lemma rd_abs_le:
  assumes "rd b = b" "\<bar>x\<bar> \<le> b"
  shows "\<bar>rd x\<bar> \<le> b"
proof -
  have "rd x \<le> rd b" using assms(2) by (intro rd_mono) simp
  moreover have "rd (- b) \<le> rd x" using assms(2) by (intro rd_mono) simp
  ultimately show ?thesis using assms(1) by (simp add: rd_minus abs_le_iff)
qed

lemma rd_0 [simp]: "rd 0 = 0"
  by (simp add: rd_def)

lemma rd_1024: "rd 1024 = 1024" by code_simp
lemma rd_8192: "rd 8192 = 8192" by code_simp
lemma rd_16384: "rd 16384 = 16384" by code_simp

lemma round_double_small:
  assumes "\<bar>x\<bar> \<le> 16384"
  shows "round_double x = Fin (rd x)"
proof -
  have a: "\<bar>rd x\<bar> \<le> 16384" using rd_16384 assms by (rule rd_abs_le)
  have b: "(16384::rat) < 2 ^ 1024" by simp
  have "\<not> 2 ^ 1024 \<le> rd x" and "\<not> rd x \<le> - (2 ^ 1024)"
    using a b by linarith+
  then show ?thesis
    unfolding round_double_def Let_def by (simp only: if_False)
qed

lemma round_double_eval:
  assumes "rd x = y" "\<bar>x\<bar> \<le> 16384"
  shows "round_double x = Fin y"
  using round_double_small [OF assms(2)] assms(1) by simp

lemma lit_0: "lit 0 = Fin 0"
  by (simp add: lit_def round_double_small)

lemma rd_12: "rd 12 = 12" by code_simp
lemma rd_121: "rd (121 / 10) = 6811694436397875 / 562949953421312" by code_simp
lemma rd_354: "rd (354 / 10) = 4982107087778611 / 140737488355328" by code_simp
lemma rd_355: "rd (355 / 10) = 71 / 2" by code_simp
lemma rd_554: "rd (554 / 10) = 7796856854885171 / 140737488355328" by code_simp
lemma rd_555: "rd (555 / 10) = 111 / 2" by code_simp
lemma rd_1504: "rd (1504 / 10) = 5291729562160333 / 35184372088832" by code_simp
lemma rd_1505: "rd (1505 / 10) = 301 / 2" by code_simp
lemma rd_2504: "rd (2504 / 10) = 8810166771043533 / 35184372088832" by code_simp
lemma rd_2505: "rd (2505 / 10) = 501 / 2" by code_simp
lemma rd_3504: "rd (3504 / 10) = 3082150994981683 / 8796093022208" by code_simp
lemma rd_3505: "rd (3505 / 10) = 701 / 2" by code_simp
lemma rd_5004: "rd (5004 / 10) = 4401564948312883 / 8796093022208" by code_simp

lemma lit_12: "lit 12 = Fin 12"
  by (simp add: lit_def round_double_small rd_12)
lemma lit_121: "lit (121 / 10) = Fin (6811694436397875 / 562949953421312)"
  unfolding lit_def by (rule round_double_eval [OF rd_121]) simp
lemma lit_354: "lit (354 / 10) = Fin (4982107087778611 / 140737488355328)"
  unfolding lit_def by (rule round_double_eval [OF rd_354]) simp
lemma lit_355: "lit (355 / 10) = Fin (71 / 2)"
  unfolding lit_def by (rule round_double_eval [OF rd_355]) simp
lemma lit_554: "lit (554 / 10) = Fin (7796856854885171 / 140737488355328)"
  unfolding lit_def by (rule round_double_eval [OF rd_554]) simp
lemma lit_555: "lit (555 / 10) = Fin (111 / 2)"
  unfolding lit_def by (rule round_double_eval [OF rd_555]) simp
lemma lit_1504: "lit (1504 / 10) = Fin (5291729562160333 / 35184372088832)"
  unfolding lit_def by (rule round_double_eval [OF rd_1504]) simp
lemma lit_1505: "lit (1505 / 10) = Fin (301 / 2)"
  unfolding lit_def by (rule round_double_eval [OF rd_1505]) simp
lemma lit_2504: "lit (2504 / 10) = Fin (8810166771043533 / 35184372088832)"
  unfolding lit_def by (rule round_double_eval [OF rd_2504]) simp
lemma lit_2505: "lit (2505 / 10) = Fin (501 / 2)"
  unfolding lit_def by (rule round_double_eval [OF rd_2505]) simp
lemma lit_3504: "lit (3504 / 10) = Fin (3082150994981683 / 8796093022208)"
  unfolding lit_def by (rule round_double_eval [OF rd_3504]) simp
lemma lit_3505: "lit (3505 / 10) = Fin (701 / 2)"
  unfolding lit_def by (rule round_double_eval [OF rd_3505]) simp
lemma lit_5004: "lit (5004 / 10) = Fin (4401564948312883 / 8796093022208)"
  unfolding lit_def by (rule round_double_eval [OF rd_5004]) simp

lemmas lit_evals = lit_0 lit_12 lit_121 lit_354 lit_355 lit_554 lit_555 lit_1504 lit_1505
  lit_2504 lit_2505 lit_3504 lit_3505 lit_5004

lemma breakpoints_eval:
  "breakpoints =
    [\<lparr>AQIh = Fin 50, Cl = Fin 0, Ch = Fin 12, category = ''Good''\<rparr>,
     \<lparr>AQIh = Fin 100, Cl = Fin (6811694436397875 / 562949953421312),
        Ch = Fin (4982107087778611 / 140737488355328), category = ''Moderate''\<rparr>,
     \<lparr>AQIh = Fin 150, Cl = Fin (71 / 2), Ch = Fin (7796856854885171 / 140737488355328),
        category = ''Unhealthy for Sensitive''\<rparr>,
     \<lparr>AQIh = Fin 200, Cl = Fin (111 / 2), Ch = Fin (5291729562160333 / 35184372088832),
        category = ''Unhealthy''\<rparr>,
     \<lparr>AQIh = Fin 300, Cl = Fin (301 / 2), Ch = Fin (8810166771043533 / 35184372088832),
        category = ''Very Unhealthy''\<rparr>,
     \<lparr>AQIh = Fin 400, Cl = Fin (501 / 2), Ch = Fin (3082150994981683 / 8796093022208),
        category = ''Hazardous''\<rparr>,
     \<lparr>AQIh = Fin 500, Cl = Fin (701 / 2), Ch = Fin (4401564948312883 / 8796093022208),
        category = ''Extremely Hazardous''\<rparr>]"
  unfolding breakpoints_def lit_evals ..

section \<open>The rows of the table, evaluated\<close>

lemma round_double_code [code]:
  "round_double x = (let y = rd x in
     if \<bar>y\<bar> \<le> 16384 then Fin y
     else if 2 ^ 1024 \<le> y then PInf else if y \<le> - (2 ^ 1024) then NInf else Fin y)"
proof -
  have b: "(16384::rat) < 2 ^ 1024" by simp
  have "\<not> 2 ^ 1024 \<le> rd x" and "\<not> rd x \<le> - (2 ^ 1024)" if "\<bar>rd x\<bar> \<le> 16384"
    using that b by linarith+
  then show ?thesis
    unfolding round_double_def Let_def by (simp only: if_False split: if_splits) auto
qed



declare breakpoints_eval [code]


lemma row_0:
  "Cl (breakpoints ! 0) = Fin (conc_low 0) \<and> Ch (breakpoints ! 0) = Fin (conc_high 0) \<and>
   AQIh (breakpoints ! 0) = Fin (index_high 0) \<and>
   AQIh_or_0 (elem_at breakpoints (indexOf breakpoints (breakpoints ! 0) - 1)) =
     Fin (index_low 0) \<and>
   ddiv (dsub (AQIh (breakpoints ! 0)) (Fin (index_low 0)))
        (dsub (Ch (breakpoints ! 0)) (Cl (breakpoints ! 0))) = Fin (slope 0)"
  by code_simp

lemma bounds_0:
  "0 \<le> slope 0 \<and> slope 0 \<le> 8 \<and> 0 \<le> conc_low 0 \<and> conc_low 0 \<le> conc_high 0 \<and>
   conc_high 0 \<le> 501 \<and> 0 \<le> index_low 0 \<and> index_low 0 \<le> 400"
  by code_simp

lemma ends_0:
  "of_int (index_at (slope 0) (conc_low 0) (index_low 0) (conc_low 0)) = index_low 0 \<and>
   of_int (index_at (slope 0) (conc_low 0) (index_low 0) (conc_high 0)) = index_high 0"
  by code_simp

lemma row_1:
  "Cl (breakpoints ! 1) = Fin (conc_low 1) \<and> Ch (breakpoints ! 1) = Fin (conc_high 1) \<and>
   AQIh (breakpoints ! 1) = Fin (index_high 1) \<and>
   AQIh_or_0 (elem_at breakpoints (indexOf breakpoints (breakpoints ! 1) - 1)) =
     Fin (index_low 1) \<and>
   ddiv (dsub (AQIh (breakpoints ! 1)) (Fin (index_low 1)))
        (dsub (Ch (breakpoints ! 1)) (Cl (breakpoints ! 1))) = Fin (slope 1)"
  by code_simp

lemma bounds_1:
  "0 \<le> slope 1 \<and> slope 1 \<le> 8 \<and> 0 \<le> conc_low 1 \<and> conc_low 1 \<le> conc_high 1 \<and>
   conc_high 1 \<le> 501 \<and> 0 \<le> index_low 1 \<and> index_low 1 \<le> 400"
  by code_simp

lemma ends_1:
  "of_int (index_at (slope 1) (conc_low 1) (index_low 1) (conc_low 1)) = index_low 1 \<and>
   of_int (index_at (slope 1) (conc_low 1) (index_low 1) (conc_high 1)) = index_high 1"
  by code_simp

lemma row_2:
  "Cl (breakpoints ! 2) = Fin (conc_low 2) \<and> Ch (breakpoints ! 2) = Fin (conc_high 2) \<and>
   AQIh (breakpoints ! 2) = Fin (index_high 2) \<and>
   AQIh_or_0 (elem_at breakpoints (indexOf breakpoints (breakpoints ! 2) - 1)) =
     Fin (index_low 2) \<and>
   ddiv (dsub (AQIh (breakpoints ! 2)) (Fin (index_low 2)))
        (dsub (Ch (breakpoints ! 2)) (Cl (breakpoints ! 2))) = Fin (slope 2)"
  by code_simp

lemma bounds_2:
  "0 \<le> slope 2 \<and> slope 2 \<le> 8 \<and> 0 \<le> conc_low 2 \<and> conc_low 2 \<le> conc_high 2 \<and>
   conc_high 2 \<le> 501 \<and> 0 \<le> index_low 2 \<and> index_low 2 \<le> 400"
  by code_simp

lemma ends_2:
  "of_int (index_at (slope 2) (conc_low 2) (index_low 2) (conc_low 2)) = index_low 2 \<and>
   of_int (index_at (slope 2) (conc_low 2) (index_low 2) (conc_high 2)) = index_high 2"
  by code_simp

lemma row_3:
  "Cl (breakpoints ! 3) = Fin (conc_low 3) \<and> Ch (breakpoints ! 3) = Fin (conc_high 3) \<and>
   AQIh (breakpoints ! 3) = Fin (index_high 3) \<and>
   AQIh_or_0 (elem_at breakpoints (indexOf breakpoints (breakpoints ! 3) - 1)) =
     Fin (index_low 3) \<and>
   ddiv (dsub (AQIh (breakpoints ! 3)) (Fin (index_low 3)))
        (dsub (Ch (breakpoints ! 3)) (Cl (breakpoints ! 3))) = Fin (slope 3)"
  by code_simp

lemma bounds_3:
  "0 \<le> slope 3 \<and> slope 3 \<le> 8 \<and> 0 \<le> conc_low 3 \<and> conc_low 3 \<le> conc_high 3 \<and>
   conc_high 3 \<le> 501 \<and> 0 \<le> index_low 3 \<and> index_low 3 \<le> 400"
  by code_simp

lemma ends_3:
  "of_int (index_at (slope 3) (conc_low 3) (index_low 3) (conc_low 3)) = index_low 3 \<and>
   of_int (index_at (slope 3) (conc_low 3) (index_low 3) (conc_high 3)) = index_high 3"
  by code_simp

lemma row_4:
  "Cl (breakpoints ! 4) = Fin (conc_low 4) \<and> Ch (breakpoints ! 4) = Fin (conc_high 4) \<and>
   AQIh (breakpoints ! 4) = Fin (index_high 4) \<and>
   AQIh_or_0 (elem_at breakpoints (indexOf breakpoints (breakpoints ! 4) - 1)) =
     Fin (index_low 4) \<and>
   ddiv (dsub (AQIh (breakpoints ! 4)) (Fin (index_low 4)))
        (dsub (Ch (breakpoints ! 4)) (Cl (breakpoints ! 4))) = Fin (slope 4)"
  by code_simp

lemma bounds_4:
  "0 \<le> slope 4 \<and> slope 4 \<le> 8 \<and> 0 \<le> conc_low 4 \<and> conc_low 4 \<le> conc_high 4 \<and>
   conc_high 4 \<le> 501 \<and> 0 \<le> index_low 4 \<and> index_low 4 \<le> 400"
  by code_simp

lemma ends_4:
  "of_int (index_at (slope 4) (conc_low 4) (index_low 4) (conc_low 4)) = index_low 4 \<and>
   of_int (index_at (slope 4) (conc_low 4) (index_low 4) (conc_high 4)) = index_high 4"
  by code_simp

lemma row_5:
  "Cl (breakpoints ! 5) = Fin (conc_low 5) \<and> Ch (breakpoints ! 5) = Fin (conc_high 5) \<and>
   AQIh (breakpoints ! 5) = Fin (index_high 5) \<and>
   AQIh_or_0 (elem_at breakpoints (indexOf breakpoints (breakpoints ! 5) - 1)) =
     Fin (index_low 5) \<and>
   ddiv (dsub (AQIh (breakpoints ! 5)) (Fin (index_low 5)))
        (dsub (Ch (breakpoints ! 5)) (Cl (breakpoints ! 5))) = Fin (slope 5)"
  by code_simp

lemma bounds_5:
  "0 \<le> slope 5 \<and> slope 5 \<le> 8 \<and> 0 \<le> conc_low 5 \<and> conc_low 5 \<le> conc_high 5 \<and>
   conc_high 5 \<le> 501 \<and> 0 \<le> index_low 5 \<and> index_low 5 \<le> 400"
  by code_simp

lemma ends_5:
  "of_int (index_at (slope 5) (conc_low 5) (index_low 5) (conc_low 5)) = index_low 5 \<and>
   of_int (index_at (slope 5) (conc_low 5) (index_low 5) (conc_high 5)) = index_high 5"
  by code_simp

lemma row_6:
  "Cl (breakpoints ! 6) = Fin (conc_low 6) \<and> Ch (breakpoints ! 6) = Fin (conc_high 6) \<and>
   AQIh (breakpoints ! 6) = Fin (index_high 6) \<and>
   AQIh_or_0 (elem_at breakpoints (indexOf breakpoints (breakpoints ! 6) - 1)) =
     Fin (index_low 6) \<and>
   ddiv (dsub (AQIh (breakpoints ! 6)) (Fin (index_low 6)))
        (dsub (Ch (breakpoints ! 6)) (Cl (breakpoints ! 6))) = Fin (slope 6)"
  by code_simp

lemma bounds_6:
  "0 \<le> slope 6 \<and> slope 6 \<le> 8 \<and> 0 \<le> conc_low 6 \<and> conc_low 6 \<le> conc_high 6 \<and>
   conc_high 6 \<le> 501 \<and> 0 \<le> index_low 6 \<and> index_low 6 \<le> 400"
  by code_simp

lemma ends_6:
  "of_int (index_at (slope 6) (conc_low 6) (index_low 6) (conc_low 6)) = index_low 6 \<and>
   of_int (index_at (slope 6) (conc_low 6) (index_low 6) (conc_high 6)) = index_high 6"
  by code_simp

lemma seven_cases:
  assumes "i < 7"
  obtains "i = 0" | "i = 1" | "i = 2" | "i = 3" | "i = 4" | "i = 5" | "i = (6::nat)"
  using assms by linarith

lemma length_breakpoints: "length breakpoints = 7"
  by (simp add: breakpoints_def)

lemma rows:
  assumes "i < 7"
  shows "Cl (breakpoints ! i) = Fin (conc_low i)"
    and "Ch (breakpoints ! i) = Fin (conc_high i)"
    and "AQIh (breakpoints ! i) = Fin (index_high i)"
    and "AQIh_or_0 (elem_at breakpoints (indexOf breakpoints (breakpoints ! i) - 1)) =
           Fin (index_low i)"
    and "ddiv (dsub (AQIh (breakpoints ! i)) (Fin (index_low i)))
              (dsub (Ch (breakpoints ! i)) (Cl (breakpoints ! i))) = Fin (slope i)"
  using assms row_0 row_1 row_2 row_3 row_4 row_5 row_6
  by (auto elim!: seven_cases)

lemma bounds:
  assumes "i < 7"
  shows "0 \<le> slope i" and "slope i \<le> 8" and "0 \<le> conc_low i"
    and "conc_low i \<le> conc_high i" and "conc_high i \<le> 501"
    and "0 \<le> index_low i" and "index_low i \<le> 400"
  using assms bounds_0 bounds_1 bounds_2 bounds_3 bounds_4 bounds_5 bounds_6
  by (auto elim!: seven_cases)

lemma ends:
  assumes "i < 7"
  shows "of_int (index_at (slope i) (conc_low i) (index_low i) (conc_low i)) = index_low i"
    and "of_int (index_at (slope i) (conc_low i) (index_low i) (conc_high i)) = index_high i"
  using assms ends_0 ends_1 ends_2 ends_3 ends_4 ends_5 ends_6
  by (auto elim!: seven_cases)

lemma index_at_mono:
  assumes "0 \<le> k" "q \<le> q'"
  shows "index_at k cl l q \<le> index_at k cl l q'"
proof -
  have "rd (q - cl) \<le> rd (q' - cl)"
    using assms(2) by (intro rd_mono) simp
  then have "k * rd (q - cl) \<le> k * rd (q' - cl)"
    using assms(1) by (rule mult_left_mono)
  then have "rd (k * rd (q - cl)) \<le> rd (k * rd (q' - cl))"
    by (rule rd_mono)
  then have "rd (rd (k * rd (q - cl)) + l) \<le> rd (rd (k * rd (q' - cl)) + l)"
    by (intro rd_mono) simp
  then show ?thesis
    unfolding index_at_def by (intro floor_mono) simp
qed

lemma interpolation_finite:
  assumes "0 \<le> k" "k \<le> 8" "\<bar>l\<bar> \<le> 1024" "\<bar>q - cl\<bar> \<le> 1024"
  shows "Math_round (dadd (dmul (Fin k) (dsub (Fin q) (Fin cl))) (Fin l)) =
         Fin (of_int (index_at k cl l q))"
proof -
  have d: "\<bar>rd (q - cl)\<bar> \<le> 1024"
    using rd_1024 assms(4) by (rule rd_abs_le)
  have 1: "dsub (Fin q) (Fin cl) = Fin (rd (q - cl))"
    using assms(4) by (simp add: dsub_def round_double_small)
  have "\<bar>k * rd (q - cl)\<bar> \<le> 8 * 1024"
    unfolding abs_mult using assms(1,2) d by (intro mult_mono) simp_all
  then have p: "\<bar>k * rd (q - cl)\<bar> \<le> 8192" by simp
  then have "\<bar>k * rd (q - cl)\<bar> \<le> 16384" by simp
  then have 2: "round_double (k * rd (q - cl)) = Fin (rd (k * rd (q - cl)))"
    by (rule round_double_small)
  have "\<bar>rd (k * rd (q - cl))\<bar> \<le> 8192"
    using rd_8192 p by (rule rd_abs_le)
  then have "\<bar>rd (k * rd (q - cl)) + l\<bar> \<le> 16384"
    using assms(3) by linarith
  then have 3: "round_double (rd (k * rd (q - cl)) + l) = Fin (rd (rd (k * rd (q - cl)) + l))"
    by (rule round_double_small)
  show ?thesis
    by (simp add: 1 2 3 index_at_def)
qed

lemma between_finite:
  assumes "dge d (Fin a)" "dle d (Fin b)"
  obtains q where "d = Fin q" "a \<le> q" "q \<le> b"
  using assms by (cases d) (simp_all add: dge_def)

lemma interpolate_row:
  assumes "i < 7" "conc_low i \<le> q" "q \<le> conc_high i"
  shows "interpolate (breakpoints ! i) (Number (Fin q)) =
         Fin (of_int (index_at (slope i) (conc_low i) (index_low i) q))"
proof -
  note b = bounds [OF assms(1)]
  have "\<bar>q - conc_low i\<bar> \<le> 1024" and "\<bar>index_low i\<bar> \<le> 1024"
    using assms(2,3) b by linarith+
  then show ?thesis
    using b(1,2) rows [OF assms(1)]
    by (simp add: interpolate_def interpolation_finite)
qed

section \<open>The loop\<close>

lemma scan_first:
  assumes "i < length bps"
    and "\<forall>j<i. \<not> (dge (ToNumber v) (Cl (bps ! j)) \<and> dle (ToNumber v) (Ch (bps ! j)))"
    and "dge (ToNumber v) (Cl (bps ! i))" and "dle (ToNumber v) (Ch (bps ! i))"
  shows "scan bps v = (interpolate (bps ! i) v, category (bps ! i))"
  using assms
proof (induction bps arbitrary: i)
  case Nil
  then show ?case by simp
next
  case (Cons bp rest)
  show ?case
  proof (cases i)
    case 0
    with Cons.prems show ?thesis by simp
  next
    case (Suc k)
    have miss: "\<not> (dge (ToNumber v) (Cl bp) \<and> dle (ToNumber v) (Ch bp))"
      using Cons.prems(2) Suc by (metis nth_Cons_0 zero_less_Suc)
    have "scan rest v = (interpolate (rest ! k) v, category (rest ! k))"
    proof (rule Cons.IH)
      show "k < length rest" using Cons.prems(1) Suc by simp
      show "\<forall>j<k. \<not> (dge (ToNumber v) (Cl (rest ! j)) \<and> dle (ToNumber v) (Ch (rest ! j)))"
      proof (intro allI impI)
        fix j assume "j < k"
        then have "Suc j < i" using Suc by simp
        with Cons.prems(2) show "\<not> (dge (ToNumber v) (Cl (rest ! j)) \<and> dle (ToNumber v) (Ch (rest ! j)))"
          by (metis nth_Cons_Suc)
      qed
      show "dge (ToNumber v) (Cl (rest ! k))" and "dle (ToNumber v) (Ch (rest ! k))"
        using Cons.prems(3,4) Suc by simp_all
    qed
    with miss Suc show ?thesis by auto
  qed
qed

lemma scan_none:
  assumes "\<forall>bp \<in> set bps. \<not> (dge (ToNumber v) (Cl bp) \<and> dle (ToNumber v) (Ch bp))"
  shows "scan bps v = (Fin 0, '''')"
  using assms by (induction bps) auto

lemma chain:
  "conc_low 0 \<le> conc_high 0 \<and> conc_high 0 < conc_low 1 \<and> conc_low 1 \<le> conc_high 1 \<and>
   conc_high 1 < conc_low 2 \<and> conc_low 2 \<le> conc_high 2 \<and> conc_high 2 < conc_low 3 \<and>
   conc_low 3 \<le> conc_high 3 \<and> conc_high 3 < conc_low 4 \<and> conc_low 4 \<le> conc_high 4 \<and>
   conc_high 4 < conc_low 5 \<and> conc_low 5 \<le> conc_high 5 \<and> conc_high 5 < conc_low 6 \<and>
   conc_low 6 \<le> conc_high 6"
  by code_simp

lemma rows_ascend:
  assumes "j < i" "i < 7"
  shows "conc_high j < conc_low i"
proof -
  from assms have "j < 7" by simp
  then show ?thesis
    using assms(2,1) chain by (elim seven_cases; elim seven_cases) simp_all
qed

lemma conc_high_mono:
  assumes "j \<le> i" "i < 7"
  shows "conc_high j \<le> conc_high i"
proof (cases "j = i")
  case False
  with assms have "conc_high j < conc_low i" by (intro rows_ascend) simp_all
  with bounds(4) [OF assms(2)] show ?thesis by simp
qed simp

lemma conc_low_mono:
  assumes "j \<le> i" "i < 7"
  shows "conc_low j \<le> conc_low i"
proof (cases "j = i")
  case False
  with assms have "conc_high j < conc_low i" and "j < 7" by (simp_all add: rows_ascend)
  with bounds(4) [of j] show ?thesis by simp
qed simp

lemma row_holds:
  assumes "i < 7"
  shows "dge (Fin q) (Cl (breakpoints ! i)) \<and> dle (Fin q) (Ch (breakpoints ! i)) \<longleftrightarrow>
         conc_low i \<le> q \<and> q \<le> conc_high i"
  by (simp add: rows [OF assms] dge_def)

lemma scan_row:
  assumes "i < 7" "conc_low i \<le> q" "q \<le> conc_high i"
  shows "scan breakpoints (Number (Fin q)) =
         (Fin (of_int (index_at (slope i) (conc_low i) (index_low i) q)),
          category (breakpoints ! i))"
proof -
  have "scan breakpoints (Number (Fin q)) =
        (interpolate (breakpoints ! i) (Number (Fin q)), category (breakpoints ! i))"
  proof (rule scan_first)
    show "i < length breakpoints"
      using assms(1) by (simp add: length_breakpoints)
    show "\<forall>j<i. \<not> (dge (ToNumber (Number (Fin q))) (Cl (breakpoints ! j)) \<and>
                     dle (ToNumber (Number (Fin q))) (Ch (breakpoints ! j)))"
    proof (intro allI impI)
      fix j assume j: "j < i"
      then have "conc_high j < q"
        using rows_ascend [OF j assms(1)] assms(2) by simp
      moreover have "j < 7" using j assms(1) by simp
      ultimately show "\<not> (dge (ToNumber (Number (Fin q))) (Cl (breakpoints ! j)) \<and>
                          dle (ToNumber (Number (Fin q))) (Ch (breakpoints ! j)))"
        by (simp add: row_holds)
    qed
    show "dge (ToNumber (Number (Fin q))) (Cl (breakpoints ! i))"
      and "dle (ToNumber (Number (Fin q))) (Ch (breakpoints ! i))"
      using row_holds [OF assms(1), of q] assms(2,3) by simp_all
  qed
  then show ?thesis
    by (simp add: interpolate_row [OF assms])
qed

lemma scan_no_row:
  assumes "\<forall>i<7. \<not> (dge d (Cl (breakpoints ! i)) \<and> dle d (Ch (breakpoints ! i)))"
  shows "scan breakpoints (Number d) = (Fin 0, '''')"
proof (rule scan_none, rule ballI)
  fix bp assume "bp \<in> set breakpoints"
  then obtain i where "i < 7" "bp = breakpoints ! i"
    by (auto simp: in_set_conv_nth length_breakpoints)
  with assms show "\<not> (dge (ToNumber (Number d)) (Cl bp) \<and> dle (ToNumber (Number d)) (Ch bp))"
    by simp
qed

lemma scan_not_finite:
  assumes "d = NaN \<or> d = PInf \<or> d = NInf"
  shows "scan breakpoints (Number d) = (Fin 0, '''')"
  using assms by (intro scan_no_row) (auto simp: rows dge_def)

lemma index_range:
  assumes "i < 7" "conc_low i \<le> q" "q \<le> conc_high i"
  shows "index_low i \<le> of_int (index_at (slope i) (conc_low i) (index_low i) q)"
    and "of_int (index_at (slope i) (conc_low i) (index_low i) q) \<le> index_high i"
proof -
  note k = bounds(1) [OF assms(1)]
  have "index_at (slope i) (conc_low i) (index_low i) (conc_low i) \<le>
        index_at (slope i) (conc_low i) (index_low i) q"
    using k assms(2) by (rule index_at_mono)
  then have "rat_of_int (index_at (slope i) (conc_low i) (index_low i) (conc_low i)) \<le>
             of_int (index_at (slope i) (conc_low i) (index_low i) q)"
    by (simp only: of_int_le_iff)
  then show "index_low i \<le> of_int (index_at (slope i) (conc_low i) (index_low i) q)"
    by (simp only: ends(1) [OF assms(1)])
  have "index_at (slope i) (conc_low i) (index_low i) q \<le>
        index_at (slope i) (conc_low i) (index_low i) (conc_high i)"
    using k assms(3) by (rule index_at_mono)
  then have "rat_of_int (index_at (slope i) (conc_low i) (index_low i) q) \<le>
             of_int (index_at (slope i) (conc_low i) (index_low i) (conc_high i))"
    by (simp only: of_int_le_iff)
  then show "of_int (index_at (slope i) (conc_low i) (index_low i) q) \<le> index_high i"
    by (simp only: ends(2) [OF assms(1)])
qed

lemma index_high_le:
  assumes "i < 7"
  shows "index_high i \<le> 500"
  using assms by (elim seven_cases) (simp_all add: index_high_def breakpoints_eval)

lemma category_listed:
  assumes "i < 7"
  shows "category (breakpoints ! i) \<in>
         {''Good'', ''Moderate'', ''Unhealthy for Sensitive'', ''Unhealthy'', ''Very Unhealthy'',
          ''Hazardous'', ''Extremely Hazardous''}"
  using assms by (elim seven_cases) (simp_all add: breakpoints_def)

lemma scan_ToNumber:
  assumes "ToNumber v = ToNumber w"
  shows "scan bps v = scan bps w"
  using assms by (induction bps) (simp_all add: interpolate_def)

lemma hd_breakpoints: "hd breakpoints = breakpoints ! 0"
  by (simp add: breakpoints_def)

lemma last_breakpoints: "last breakpoints = breakpoints ! 6"
  by (simp add: breakpoints_def)

lemma first_row: "conc_low 0 = 0" "index_low 0 = 0" "category (breakpoints ! 0) = ''Good''"
  by (simp_all add: conc_low_def index_low_def breakpoints_eval)

lemma AQI_Number:
  assumes "d \<noteq> NaN"
  shows "AQI (Number d) =
         (if fst (scan breakpoints (Number d)) = Fin 0 then Dash
          else Span (colour (fst (scan breakpoints (Number d))))
                 (fst (scan breakpoints (Number d))) (snd (scan breakpoints (Number d))))"
  using assms by (simp add: AQI_def isNaN_def split_beta)

lemma AQI_NaN: "AQI (Number NaN) = Dash"
  by (simp add: AQI_def isNaN_def)

lemma AQI_no_row:
  assumes "\<forall>i<7. \<not> (dge d (Cl (breakpoints ! i)) \<and> dle d (Ch (breakpoints ! i)))"
  shows "AQI (Number d) = Dash"
proof (cases "d = NaN")
  case True
  then show ?thesis by (simp add: AQI_NaN)
next
  case False
  then show ?thesis
    by (simp add: AQI_Number scan_no_row [OF assms])
qed

lemma AQI_row:
  assumes "i < 7" "conc_low i \<le> q" "q \<le> conc_high i"
  shows "AQI (Number (Fin q)) =
         (if index_at (slope i) (conc_low i) (index_low i) q = 0 then Dash
          else Span (colour (Fin (of_int (index_at (slope i) (conc_low i) (index_low i) q))))
                 (Fin (of_int (index_at (slope i) (conc_low i) (index_low i) q)))
                 (category (breakpoints ! i)))"
  by (simp add: AQI_Number scan_row [OF assms])

lemma AQI_EmptyString: "AQI EmptyString = Dash"
proof -
  have "scan breakpoints EmptyString = scan breakpoints (Number (Fin 0))"
    by (rule scan_ToNumber) simp
  also have "\<dots> = (Fin (of_int (index_at (slope 0) (conc_low 0) (index_low 0) 0)),
                     category (breakpoints ! 0))"
    using bounds(4) [of 0] by (intro scan_row) (simp_all add: first_row)
  finally show ?thesis
    using ends(1) [of 0] by (simp add: AQI_def isNaN_def first_row)
qed

lemma AQI_shape:
  "AQI v = Dash \<or>
   (\<exists>i n. i < 7 \<and> index_low i \<le> of_int n \<and> of_int n \<le> index_high i \<and> n \<noteq> 0 \<and>
      AQI v = Span (colour (Fin (of_int n))) (Fin (of_int n)) (category (breakpoints ! i)))"
proof (cases v)
  case Undefined
  then show ?thesis by (simp add: AQI_def)
next
  case Null
  then show ?thesis by (simp add: AQI_def)
next
  case EmptyString
  then show ?thesis by (simp add: AQI_EmptyString)
next
  case (Number d)
  show ?thesis
  proof (cases "\<exists>i<7. dge d (Cl (breakpoints ! i)) \<and> dle d (Ch (breakpoints ! i))")
    case False
    then show ?thesis
      using Number AQI_no_row [of d] by simp
  next
    case True
    then obtain i where i: "i < 7"
      and "dge d (Cl (breakpoints ! i))" "dle d (Ch (breakpoints ! i))"
      by blast
    then obtain q where d: "d = Fin q" and q: "conc_low i \<le> q" "q \<le> conc_high i"
      by (auto simp: rows elim: between_finite)
    show ?thesis
      using AQI_row [OF i q] index_range [OF i q] i
      by (auto simp: Number d)
  qed
qed

lemma index_bounds:
  assumes "i < 7" "index_low i \<le> rat_of_int n" "of_int n \<le> index_high i" "n \<noteq> 0"
  shows "1 \<le> n \<and> n \<le> 500"
proof -
  have "rat_of_int 0 \<le> of_int n"
    using bounds(6) [OF assms(1)] assms(2) by simp
  then have "0 \<le> n" by (simp only: of_int_le_iff)
  moreover have "rat_of_int n \<le> of_int 500"
    using index_high_le [OF assms(1)] assms(3) by simp
  then have "n \<le> 500" by (simp only: of_int_le_iff)
  ultimately show ?thesis using assms(4) by simp
qed

lemma rd_fixed_grid:
  assumes "rd q = q" "0 < q"
  shows "q = of_int (rne (q / quantum q)) * quantum q"
  using assms by (simp add: rd_def)

lemma pred_double:
  assumes "rd q = q" "0 < q" "q < of_int M * pow2 (e - 52)"
    and "2 ^ 52 < M" "M < 2 ^ 53" "- 1022 \<le> e"
  shows "q \<le> of_int (M - 1) * pow2 (e - 52)"
proof -
  have u: "0 < pow2 (e - 52)" by (rule pow2_pos)
  have lo: "pow2 e \<le> of_int (M - 1) * pow2 (e - 52)"
  proof -
    have "2 ^ 52 \<le> M - 1"
      using assms(4) by simp
    then have "rat_of_int (2 ^ 52) \<le> of_int (M - 1)"
      by (simp only: of_int_le_iff)
    then have "pow2 52 \<le> of_int (M - 1)"
      by (simp add: pow2_def)
    then have "pow2 52 * pow2 (e - 52) \<le> of_int (M - 1) * pow2 (e - 52)"
      using u by (simp only: mult_le_cancel_right_pos)
    then show ?thesis
      using pow2_split [of e 52] by simp
  qed
  have hi: "of_int M * pow2 (e - 52) < pow2 (e + 1)"
  proof -
    have "rat_of_int M < of_int (2 ^ 53)"
      using assms(5) by (simp only: of_int_less_iff)
    then have "of_int M < pow2 53"
      by (simp add: pow2_def)
    then have "of_int M * pow2 (e - 52) < pow2 53 * pow2 (e - 52)"
      using u by (simp only: mult_less_cancel_right_pos)
    then show ?thesis
      using pow2_split [of "e + 1" 53] by simp
  qed
  show ?thesis
  proof (cases "ilog2 q < e")
    case True
    have "q < pow2 (ilog2 q + 1)"
      using ilog2_bounds [OF assms(2)] by simp
    also have "\<dots> \<le> pow2 e"
      using True by (intro pow2_mono) simp
    finally show ?thesis using lo by simp
  next
    case False
    have "pow2 (ilog2 q) < pow2 (e + 1)"
      using ilog2_bounds [OF assms(2)] assms(3) hi by simp
    then have "ilog2 q < e + 1" by (rule pow2_less_cancel)
    with False have e: "ilog2 q = e" by simp
    have quantum: "quantum q = pow2 (e - 52)"
      using assms(2,6) e by (simp add: quantum_def max_def)
    define m where "m = rne (q / quantum q)"
    have q: "q = of_int m * pow2 (e - 52)"
      using rd_fixed_grid [OF assms(1,2)] by (simp add: m_def quantum)
    with assms(3) have "rat_of_int m * pow2 (e - 52) < of_int M * pow2 (e - 52)"
      by simp
    then have "rat_of_int m < of_int M"
      using u by (simp only: mult_less_cancel_right_pos)
    then have "m < M"
      by (simp only: of_int_less_iff)
    then have "m \<le> M - 1"
      by simp
    then have "rat_of_int m \<le> of_int (M - 1)"
      by (simp only: of_int_le_iff)
    then have "of_int m * pow2 (e - 52) \<le> of_int (M - 1) * pow2 (e - 52)"
      using u by (simp only: mult_le_cancel_right_pos)
    then show ?thesis by (simp only: q [symmetric])
  qed
qed

lemma is_double_rd:
  assumes "is_double q"
  shows "rd q = q"
  using assms by (auto simp: is_double_def round_double_def Let_def split: if_splits)

lemma AQI_first_match:
  assumes "i < length breakpoints"
    and "\<forall>j<i. \<not> (dge d (Cl (breakpoints ! j)) \<and> dle d (Ch (breakpoints ! j)))"
    and "dge d (Cl (breakpoints ! i))" and "dle d (Ch (breakpoints ! i))"
  shows "AQI (Number d) =
         (if interpolate (breakpoints ! i) (Number d) = Fin 0 then Dash
          else Span (colour (interpolate (breakpoints ! i) (Number d)))
                 (interpolate (breakpoints ! i) (Number d)) (category (breakpoints ! i)))"
proof -
  have "d \<noteq> NaN"
    using assms(4) by (cases d) simp_all
  moreover have "scan breakpoints (Number d) =
      (interpolate (breakpoints ! i) (Number d), category (breakpoints ! i))"
    using assms by (intro scan_first) simp_all
  ultimately show ?thesis
    by (simp add: AQI_Number)
qed

lemma AQI_12: "AQI (Number (Fin 12)) = Span ''#227d34'' (Fin 50) ''Good''"
  by code_simp

lemma AQI_121: "AQI (Number (lit (121 / 10))) = Span ''#227d34'' (Fin 50) ''Moderate''"
  by code_simp

lemma AQI_5004:
  "AQI (Number (lit (5004 / 10))) = Span ''#5a2210'' (Fin 500) ''Extremely Hazardous''"
  by code_simp



lemma AQI_0: "scan breakpoints (Number (Fin 0)) = (Fin 0, ''Good'')"
  by code_simp

lemma AQI_01:
  "dge (lit (1 / 10)) (Cl (hd breakpoints)) \<and> dle (lit (1 / 10)) (Ch (hd breakpoints)) \<and>
   interpolate (hd breakpoints) (Number (lit (1 / 10))) = Fin 0 \<and>
   category (hd breakpoints) = ''Good''"
  by code_simp


lemma lit_012: "lit (12 / 100) = Fin (of_int 8646911284551352 * pow2 (- 4 - 52))"
  by code_simp

lemma below_012:
  "index_at (slope 0) (conc_low 0) (index_low 0)
     (of_int (8646911284551352 - 1) * pow2 (- 4 - 52)) = 0 \<and>
   of_int (8646911284551352 - 1) * pow2 (- 4 - 52) \<le> conc_high 0"
  by code_simp

lemma index_zero_below_012:
  assumes "is_double q" "0 \<le> q" "dlt (Fin q) (lit (12 / 100))"
  shows "conc_low 0 \<le> q" and "q \<le> conc_high 0"
    and "index_at (slope 0) (conc_low 0) (index_low 0) q = 0"
proof -
  define P :: rat where "P = of_int (8646911284551352 - 1) * pow2 (- 4 - 52)"
  have lt: "q < of_int 8646911284551352 * pow2 (- 4 - 52)"
    using assms(3) by (simp only: lit_012 dlt.simps)
  have P: "q \<le> P"
  proof (cases "q = 0")
    case True
    then show ?thesis
      using pow2_pos [of "- 4 - 52"] by (simp add: P_def)
  next
    case False
    with assms(2) have "0 < q" by simp
    with is_double_rd [OF assms(1)] show ?thesis
      unfolding P_def using lt by (rule pred_double) simp_all
  qed
  show low: "conc_low 0 \<le> q"
    using assms(2) by (simp add: first_row)
  show high: "q \<le> conc_high 0"
    using P below_012 by (simp add: P_def)
  have "index_at (slope 0) (conc_low 0) (index_low 0) q \<le>
        index_at (slope 0) (conc_low 0) (index_low 0) P"
    using bounds(1) [of 0] P by (intro index_at_mono) simp_all
  then have "index_at (slope 0) (conc_low 0) (index_low 0) q \<le> 0"
    using below_012 by (simp add: P_def)
  moreover have "rat_of_int 0 \<le> of_int (index_at (slope 0) (conc_low 0) (index_low 0) q)"
    using index_range(1) [OF _ low high] by (simp add: first_row)
  then have "0 \<le> index_at (slope 0) (conc_low 0) (index_low 0) q"
    by (simp only: of_int_le_iff)
  ultimately show "index_at (slope 0) (conc_low 0) (index_low 0) q = 0"
    by simp
qed



section \<open>The properties\<close>

text \<open>
  C1. A concentration inside a row should render the rounded interpolation of that row
  with the row's category. At \<open>pm2_5 = 0.1\<close> the first row holds the concentration and
  the loop computes the index \<open>0\<close> of category Good, yet the component renders the
  dash: the test \<open>aqi === 0\<close> after the loop takes the computed index for the initial
  value of \<open>aqi\<close>.
\<close>

theorem index_zero_in_first_band_is_dropped:
  "dge (lit (1 / 10)) (Cl (hd breakpoints)) \<and> dle (lit (1 / 10)) (Ch (hd breakpoints)) \<and>
   interpolate (hd breakpoints) (Number (lit (1 / 10))) = Fin 0 \<and>
   category (hd breakpoints) = ''Good'' \<and>
   AQI (Number (lit (1 / 10))) = Dash"
proof -
  have "AQI (Number (lit (1 / 10))) = Dash"
    using AQI_01 AQI_first_match [of 0 "lit (1 / 10)"]
    by (simp add: hd_breakpoints length_breakpoints)
  with AQI_01 show ?thesis by simp
qed

text \<open>
  C2. At the concentration \<open>0.0\<close> the loop ends with \<open>aqi = 0\<close> and
  \<open>cat = "Good"\<close>, and the component renders the dash, not the index \<open>0\<close>
  with the category Good.
\<close>

theorem concentration_zero_renders_dash:
  "scan breakpoints (Number (Fin 0)) = (Fin 0, ''Good'') \<and> AQI (Number (Fin 0)) = Dash"
  using AQI_0 by (simp add: AQI_Number)

text \<open>
  C3. For \<open>undefined\<close>, \<open>null\<close>, the empty string and NaN the component
  renders the dash. The first two and NaN are caught by the test at the head of the function;
  the empty string converts to \<open>0\<close>, for which the loop leaves \<open>aqi = 0\<close>.
\<close>

theorem absent_inputs_render_dash:
  "AQI Undefined = Dash \<and> AQI Null = Dash \<and> AQI EmptyString = Dash \<and>
   AQI (Number NaN) = Dash"
  by (simp add: AQI_EmptyString AQI_NaN) (simp add: AQI_def)

text \<open>
  C4. At the lower bound \<open>12.1\<close> of the second row the component renders the index
  \<open>50\<close>, not \<open>51\<close>: the interpolation of a row starts from the index the
  previous row ends at.
\<close>

theorem lower_seam_counterexample:
  "shown_index (AQI (Number (lit (121 / 10)))) = Some (Fin 50) \<and>
   shown_index (AQI (Number (lit (121 / 10)))) \<noteq> Some (Fin 51)"
  by (simp add: AQI_121)

text \<open>
  C4, as the code has it: \<open>12.0\<close> renders \<open>50\<close> (Good), \<open>12.1\<close>
  renders \<open>50\<close> (Moderate), so the category changes across the seam and the index
  does not, and \<open>500.4\<close> renders \<open>500\<close> (Extremely Hazardous).
\<close>

theorem seam_values:
  "AQI (Number (lit 12)) = Span ''#227d34'' (Fin 50) ''Good'' \<and>
   AQI (Number (lit (121 / 10))) = Span ''#227d34'' (Fin 50) ''Moderate'' \<and>
   AQI (Number (lit (5004 / 10))) = Span ''#5a2210'' (Fin 500) ''Extremely Hazardous''"
  unfolding lit_12 by (intro conjI AQI_12 AQI_121 AQI_5004)

text \<open>
  C5. A Number below the lower bound of the first row (a negative one) or above the upper
  bound of the last row (above \<open>500.4\<close>) renders the dash: no row holds it, and
  nothing is clamped or extrapolated.
\<close>

theorem outside_domain_renders_dash:
  assumes "dlt d (Cl (hd breakpoints)) \<or> dlt (Ch (last breakpoints)) d"
  shows "AQI (Number d) = Dash"
proof (rule AQI_no_row, intro allI impI)
  fix i :: nat
  assume i: "i < 7"
  have lo: "conc_low 0 \<le> conc_low i" and hi: "conc_high i \<le> conc_high 6"
    using i by (simp_all add: conc_low_mono conc_high_mono)
  from assms have "dlt d (Fin (conc_low 0)) \<or> dlt (Fin (conc_high 6)) d"
    by (simp add: hd_breakpoints last_breakpoints rows)
  then show "\<not> (dge d (Cl (breakpoints ! i)) \<and> dle d (Ch (breakpoints ! i)))"
    using lo hi by (cases d) (auto simp: rows [OF i] dge_def)
qed

theorem outside_domain_witness:
  "dlt (Fin (- 1)) (Cl (hd breakpoints)) \<and> AQI (Number (Fin (- 1))) = Dash \<and>
   dlt (Ch (last breakpoints)) (lit (5005 / 10)) \<and> AQI (Number (lit (5005 / 10))) = Dash"
proof -
  have 1: "dlt (Fin (- 1)) (Cl (hd breakpoints))"
    and 2: "dlt (Ch (last breakpoints)) (lit (5005 / 10))"
    by code_simp+
  show ?thesis
    using 1 2 outside_domain_renders_dash [of "Fin (- 1)"]
      outside_domain_renders_dash [of "lit (5005 / 10)"]
    by simp
qed





text \<open>
  C8. A Number strictly between the upper bound of a row and the lower bound of the next
  row (such as one between \<open>12.0\<close> and \<open>12.1\<close>) lies in no row, and the
  component renders the dash.
\<close>

theorem gap_renders_dash:
  assumes "Suc i < length breakpoints"
    and "dlt (Ch (breakpoints ! i)) d" and "dlt d (Cl (breakpoints ! Suc i))"
  shows "AQI (Number d) = Dash"
proof (rule AQI_no_row, intro allI impI)
  fix j :: nat
  assume j: "j < 7"
  have i: "i < 7" "Suc i < 7"
    using assms(1) by (simp_all add: length_breakpoints)
  from assms(2,3) obtain q where d: "d = Fin q" and q: "conc_high i < q" "q < conc_low (Suc i)"
    by (cases d) (simp_all add: rows(2) [OF i(1)] rows(1) [OF i(2)])
  show "\<not> (dge d (Cl (breakpoints ! j)) \<and> dle d (Ch (breakpoints ! j)))"
  proof (cases "j \<le> i")
    case True
    then have "conc_high j \<le> conc_high i"
      using i by (intro conc_high_mono)
    with q show ?thesis
      by (simp add: d row_holds [OF j])
  next
    case False
    then have "conc_low (Suc i) \<le> conc_low j"
      using j by (intro conc_low_mono) simp_all
    with q show ?thesis
      by (simp add: d row_holds [OF j])
  qed
qed

theorem gap_witness:
  "Suc 0 < length breakpoints \<and> dlt (Ch (breakpoints ! 0)) (Fin (193 / 16)) \<and>
   dlt (Fin (193 / 16)) (Cl (breakpoints ! Suc 0)) \<and> AQI (Number (Fin (193 / 16))) = Dash"
proof -
  have h: "Suc 0 < length breakpoints" "dlt (Ch (breakpoints ! 0)) (Fin (193 / 16))"
    "dlt (Fin (193 / 16)) (Cl (breakpoints ! Suc 0))"
    by (simp_all add: length_breakpoints breakpoints_eval)
  from gap_renders_dash [OF h] h show ?thesis by simp
qed

text \<open>
  C9. A concentration in the first row whose interpolated index rounds to \<open>0\<close>
  renders the dash although the row holds it; and every Number \<open>q\<close> with
  \<open>0 <= q\<close> and \<open>q < 0.12\<close> is such a concentration. (\<open>0.12\<close> is the
  binary64 value of the literal; at that value itself the index is \<open>1\<close>.)
\<close>

theorem zero_index_renders_dash:
  "(dge d (Cl (hd breakpoints)) \<and> dle d (Ch (hd breakpoints)) \<and>
    interpolate (hd breakpoints) (Number d) = Fin 0 \<longrightarrow> AQI (Number d) = Dash) \<and>
   (is_double q \<and> 0 \<le> q \<and> dlt (Fin q) (lit (12 / 100)) \<longrightarrow>
    dge (Fin q) (Cl (hd breakpoints)) \<and> dle (Fin q) (Ch (hd breakpoints)) \<and>
    interpolate (hd breakpoints) (Number (Fin q)) = Fin 0 \<and> AQI (Number (Fin q)) = Dash)"
proof (intro conjI impI)
  assume "dge d (Cl (hd breakpoints)) \<and> dle d (Ch (hd breakpoints)) \<and>
    interpolate (hd breakpoints) (Number d) = Fin 0"
  then show "AQI (Number d) = Dash"
    using AQI_first_match [of 0 d] by (simp add: hd_breakpoints length_breakpoints)
next
  assume "is_double q \<and> 0 \<le> q \<and> dlt (Fin q) (lit (12 / 100))"
  then have q: "is_double q" "0 \<le> q" "dlt (Fin q) (lit (12 / 100))"
    by simp_all
  note z = index_zero_below_012 [OF q]
  show "dge (Fin q) (Cl (hd breakpoints))" and "dle (Fin q) (Ch (hd breakpoints))"
    using row_holds [of 0 q] z(1,2) by (simp_all add: hd_breakpoints)
  show "interpolate (hd breakpoints) (Number (Fin q)) = Fin 0"
    using interpolate_row [OF _ z(1,2)] z(3) by (simp add: hd_breakpoints)
  show "AQI (Number (Fin q)) = Dash"
    using AQI_row [OF _ z(1,2)] z(3) by simp
qed

theorem zero_index_witness:
  "is_double (1 / 16) \<and> 0 \<le> (1 / 16 :: rat) \<and> dlt (Fin (1 / 16)) (lit (12 / 100)) \<and>
   dge (Fin (1 / 16)) (Cl (hd breakpoints)) \<and> dle (Fin (1 / 16)) (Ch (hd breakpoints)) \<and>
   interpolate (hd breakpoints) (Number (Fin (1 / 16))) = Fin 0 \<and>
   AQI (Number (Fin (1 / 16))) = Dash"
proof -
  have h: "is_double (1 / 16) \<and> 0 \<le> (1 / 16 :: rat) \<and> dlt (Fin (1 / 16)) (lit (12 / 100))"
    by code_simp
  with zero_index_renders_dash [of "Fin (1 / 16)" "1 / 16"] show ?thesis
    by blast
qed

text \<open>
  C10. Whenever the component renders a span, the index it shows is an integer between
  \<open>1\<close> and \<open>500\<close> and the category is one of the seven of the table.
\<close>

theorem present_result_in_range:
  assumes "AQI v = Span c a cat"
  shows "\<exists>n. a = Fin (of_int n) \<and> 1 \<le> n \<and> n \<le> 500 \<and>
           cat \<in> {''Good'', ''Moderate'', ''Unhealthy for Sensitive'', ''Unhealthy'',
                  ''Very Unhealthy'', ''Hazardous'', ''Extremely Hazardous''}"
proof -
  from AQI_shape [of v] assms obtain i n where i: "i < 7"
    and n: "index_low i \<le> of_int n" "of_int n \<le> index_high i" "n \<noteq> 0"
    and eq: "a = Fin (of_int n)" "cat = category (breakpoints ! i)"
    by auto
  from index_bounds [OF i n] category_listed [OF i] eq show ?thesis
    by blast
qed

theorem present_result_witness:
  "AQI (Number (Fin 12)) = Span ''#227d34'' (Fin 50) ''Good'' \<and>
   (\<exists>n. Fin 50 = Fin (of_int n) \<and> 1 \<le> n \<and> n \<le> (500 :: int))"
  using present_result_in_range [OF AQI_12] AQI_12 by blast

end
